theory Spec2Isabelle
  imports Complex_Main
begin

section \<open>JavaScript arrays\<close>

text \<open>
  Reading \<^verbatim>\<open>xs[i]\<close> beyond the end of a JavaScript array gives \<^verbatim>\<open>undefined\<close>,
  which is never \<^verbatim>\<open>===\<close> to a character. \<open>None\<close> stands for \<^verbatim>\<open>undefined\<close>.
\<close>

definition js_index :: "'a list \<Rightarrow> nat \<Rightarrow> 'a option" where
  "js_index xs i = (if i < length xs then Some (xs ! i) else None)"

text \<open>
  Writing \<^verbatim>\<open>xs[i] = v\<close> beyond the end extends the array. The slots in between are
  holes. The readers of \<open>greenChars\<close> below give the same result on a hole as on
  \<^verbatim>\<open>null\<close>: \<^verbatim>\<open>includes\<close> of a character matches neither, \<^verbatim>\<open>every\<close> and \<^verbatim>\<open>filter\<close> skip a
  hole where the callbacks accept or drop \<^verbatim>\<open>null\<close>, and the one test that tells them
  apart (\<^verbatim>\<open>greenChars[i] !== null\<close> in \<open>evaluateWord\<close>) returns true on both of its
  branches. So a hole is modelled by the same \<open>None\<close> as \<^verbatim>\<open>null\<close>.
\<close>

definition js_assign :: "'a option list \<Rightarrow> nat \<Rightarrow> 'a \<Rightarrow> 'a option list" where
  "js_assign xs i v =
     (if i < length xs then xs[i := Some v]
      else xs @ replicate (i - length xs) None @ [Some v])"

text \<open>\<^verbatim>\<open>Array.from(new Set(xs))\<close>: the distinct elements, each at its first occurrence.\<close>

definition array_from_set :: "'a list \<Rightarrow> 'a list" where
  "array_from_set xs = rev (remdups (rev xs))"

text \<open>\<^verbatim>\<open>xs.findIndex(p)\<close>; \<open>None\<close> stands for the result \<^verbatim>\<open>-1\<close>.\<close>

fun findIndex :: "('a \<Rightarrow> bool) \<Rightarrow> 'a list \<Rightarrow> nat option" where
  "findIndex p [] = None"
| "findIndex p (x # xs) =
     (if p x then Some 0 else (case findIndex p xs of None \<Rightarrow> None | Some i \<Rightarrow> Some (Suc i)))"

text \<open>\<^verbatim>\<open>Math.min(...xs)\<close>; \<open>None\<close> stands for \<^verbatim>\<open>Infinity\<close>, the result on no arguments.\<close>

fun math_min :: "nat list \<Rightarrow> nat option" where
  "math_min [] = None"
| "math_min (x # xs) = Some (fold min xs x)"

section \<open>Word\<close>

datatype error = NoWordsRemaining | TypeError

record Word =
  characters :: string
  vowels :: string
  consonants :: string
  repeatedCharaters :: "char \<rightharpoonup> nat"

definition Word_of :: "string \<Rightarrow> Word" where
  "Word_of text =
     \<lparr> characters = text,
       vowels = filter (\<lambda>c. c \<in> set ''aeiou'') text,
       consonants = filter (\<lambda>c. c \<notin> set ''aeiou'') text,
       repeatedCharaters =
         fold (\<lambda>(character, count) acc. acc(character \<mapsto> count))
           (filter (\<lambda>(character, count). count > 1)
              (map (\<lambda>eachChar. (eachChar, length (filter (\<lambda>c. c = eachChar) text))) text))
           Map.empty \<rparr>"

text \<open>
  The constructor (lines 12-35) as an operation that could fail: its body has no
  \<^verbatim>\<open>throw\<close> and no length test, so every call returns the object.
\<close>

definition Word_constructor :: "string \<Rightarrow> error + Word" where
  "Word_constructor text = Inr (Word_of text)"

definition hasChar :: "Word \<Rightarrow> char \<Rightarrow> bool" where
  "hasChar w c = (c \<in> set (characters w))"

definition toString :: "Word \<Rightarrow> string" where
  "toString w = characters w"

section \<open>WordFilter\<close>

datatype color = GRAY | YELLOW | GREEN

record position =
  character :: char
  pvalue :: color

record WordFilter =
  positions :: "position list"

definition isWin :: "WordFilter \<Rightarrow> bool" where
  "isWin flt = list_all (\<lambda>p. pvalue p = GREEN) (positions flt)"

section \<open>Game\<close>

record Game =
  wordFilters :: "WordFilter list"
  secretWord :: Word
  allWords :: "Word list"
  availableWords :: "Word list"

definition Game_constructor :: "string \<Rightarrow> string list \<Rightarrow> Game" where
  "Game_constructor secret ws =
     \<lparr> wordFilters = [],
       secretWord = Word_of secret,
       allWords = map Word_of ws,
       availableWords = map Word_of ws \<rparr>"

subsection \<open>newTry\<close>

text \<open>The callback of the \<^verbatim>\<open>map\<close> of lines 175-179.\<close>

definition classify :: "Word \<Rightarrow> nat \<Rightarrow> char \<Rightarrow> position" where
  "classify secret i c =
     (if Some c = js_index (characters secret) i then \<lparr>character = c, pvalue = GREEN\<rparr>
      else if c \<in> set (characters secret) then \<lparr>character = c, pvalue = YELLOW\<rparr>
      else \<lparr>character = c, pvalue = GRAY\<rparr>)"

definition first_pass :: "Word \<Rightarrow> Word \<Rightarrow> position list" where
  "first_pass secret w = map (\<lambda>(i, c). classify secret i c) (enumerate 0 (characters w))"

text \<open>
  One round of the \<^verbatim>\<open>forEach\<close> of lines 181-190, which overwrites \<^verbatim>\<open>wf.positions[i]\<close> in
  place: the green characters are read again from the current array in every round.
  The index is always in range, since the array has one entry per character of the word.
\<close>

definition downgrade :: "nat \<times> char \<Rightarrow> position list \<Rightarrow> position list" where
  "downgrade ic ps =
     (case ic of (i, c) \<Rightarrow>
        if pvalue (ps ! i) = YELLOW then
          (let greens = map character (filter (\<lambda>p. pvalue p = GREEN) ps)
           in if c \<in> set greens then ps[i := \<lparr>character = c, pvalue = GRAY\<rparr>] else ps)
        else ps)"

definition newTry :: "Game \<Rightarrow> Word \<Rightarrow> WordFilter" where
  "newTry g w =
     \<lparr> positions = fold downgrade (enumerate 0 (characters w)) (first_pass (secretWord g) w) \<rparr>"

text \<open>
  Lines 337-338 of \<open>play\<close>: the feedback of the guessed word is pushed onto the history.
\<close>

definition submit :: "Game \<Rightarrow> Word \<Rightarrow> Game" where
  "submit g w = g\<lparr> wordFilters := wordFilters g @ [newTry g w] \<rparr>"

subsection \<open>The constraint state\<close>

definition usedWords :: "Game \<Rightarrow> string list" where
  "usedWords g = map (\<lambda>flt. map character (positions flt)) (wordFilters g)"

text \<open>The callback of the inner \<^verbatim>\<open>forEach\<close> of \<open>greenChars\<close> (lines 208-212).\<close>

definition green_write :: "nat \<times> position \<Rightarrow> char option list \<Rightarrow> char option list" where
  "green_write ip acc =
     (case ip of (i, p) \<Rightarrow> if pvalue p = GREEN then js_assign acc i (character p) else acc)"

definition greenChars :: "Game \<Rightarrow> char option list" where
  "greenChars g =
     fold (\<lambda>flt acc. fold green_write (enumerate 0 (positions flt)) acc)
       (wordFilters g) [None, None, None, None, None]"

definition yellowChars :: "Game \<Rightarrow> char list" where
  "yellowChars g =
     (let allWordFilters = concat (map positions (wordFilters g))
      in filter (\<lambda>c. Some c \<notin> set (greenChars g))
           (array_from_set (map character (filter (\<lambda>p. pvalue p = YELLOW) allWordFilters))))"

definition grayChars :: "Game \<Rightarrow> char list" where
  "grayChars g =
     (let allWordFilters = concat (map positions (wordFilters g))
      in filter (\<lambda>c. Some c \<notin> set (greenChars g))
           (array_from_set (map character (filter (\<lambda>p. pvalue p = GRAY) allWordFilters))))"

subsection \<open>evaluateWord\<close>

record Grade =
  gray :: bool
  green :: bool
  yellow :: bool

text \<open>
  The callback of \<open>passYellow\<close> (lines 253-262) keeps its index and its test of
  \<open>greenChars[i]\<close>, which is \<^verbatim>\<open>undefined\<close> (so not \<^verbatim>\<open>null\<close>) beyond the end; both
  branches after the \<open>hasChar\<close> test return true, and the code after the second
  \<^verbatim>\<open>return true\<close> is never run.
\<close>

definition evaluateWord :: "Game \<Rightarrow> Word \<Rightarrow> Grade" where
  "evaluateWord g w =
     (let passGray = \<not> list_ex (\<lambda>c. hasChar w c) (grayChars g);
          passGreen =
            list_all (\<lambda>(i, c). case c of None \<Rightarrow> True
                                | Some c' \<Rightarrow> js_index (characters w) i = Some c')
              (enumerate 0 (greenChars g));
          passYellow =
            list_all (\<lambda>(i, c).
                 if \<not> hasChar w c then False
                 else (let positionIsGreen = (js_index (greenChars g) i \<noteq> Some None)
                       in if \<not> positionIsGreen then True else True))
              (enumerate 0 (yellowChars g))
      in \<lparr> gray = passGray, green = passGreen, yellow = passYellow \<rparr>)"

subsection \<open>gradeWords\<close>

text \<open>
  \<open>CHARS_GRADING\<close> comes from the module \<^verbatim>\<open>./words\<close>, which is not part of the sources
  at hand: the table is a parameter. JavaScript numbers are modelled by reals; the
  comparator of the sort is then consistent, and a stable sort (which
  \<^verbatim>\<open>Array.prototype.sort\<close> is) has one result, the one \<open>sort_key\<close> computes. Only
  \<open>params[0..2]\<close> are read, so the parameters are a triple.
\<close>

definition gradeWords ::
  "(char \<Rightarrow> real) \<Rightarrow> Game \<Rightarrow> real \<times> real \<times> real \<Rightarrow> Word list \<Rightarrow> (Word \<times> real list) list" where
  "gradeWords CHARS_GRADING g params ws =
     (let existingCharacters =
            array_from_set (filter (\<lambda>c. c \<noteq> None) (greenChars g @ map Some (yellowChars g)))
      in sort_key (\<lambda>(w, grade). - sum_list grade)
           (map (\<lambda>w.
                let existingCharactersGrade =
                      real (length (filter (\<lambda>c. Some c \<notin> set existingCharacters) (characters w))) / 5;
                    repeatedCharactersGrade = real (card (set (characters w))) / 5;
                    valuableCharactersGrade =
                      fold (\<lambda>character acc. acc + CHARS_GRADING character / 5) (characters w) 0
                in (case params of (p0, p1, p2) \<Rightarrow>
                      (w, [existingCharactersGrade * p0, repeatedCharactersGrade * p1,
                           valuableCharactersGrade * p2])))
              ws))"

subsection \<open>guessWord\<close>

definition remaining :: "Game \<Rightarrow> Word list" where
  "remaining g = filter (\<lambda>w. toString w \<notin> set (usedWords g)) (allWords g)"

text \<open>The object \<open>typeGradedWords\<close>, with its keys in insertion order.\<close>

definition typeGradedWords :: "Game \<Rightarrow> Word list \<Rightarrow> (string \<times> Word list) list" where
  "typeGradedWords g ws =
     (let gradedWords = map (\<lambda>w. (evaluateWord g w, w)) ws
      in [ (''g'', map snd (filter (\<lambda>(grade, w). gray grade) gradedWords)),
           (''v'', map snd (filter (\<lambda>(grade, w). green grade) gradedWords)),
           (''y'', map snd (filter (\<lambda>(grade, w). yellow grade) gradedWords)),
           (''gv'', map snd (filter (\<lambda>(grade, w). gray grade \<and> green grade) gradedWords)),
           (''gy'', map snd (filter (\<lambda>(grade, w). gray grade \<and> yellow grade) gradedWords)),
           (''yv'', map snd (filter (\<lambda>(grade, w). green grade \<and> yellow grade) gradedWords)),
           (''gvy'', map snd (filter (\<lambda>(grade, w). gray grade \<and> green grade \<and> yellow grade)
                                gradedWords)) ])"

text \<open>
  The immediately invoked function of lines 296-300. \<open>None\<close> is \<^verbatim>\<open>undefined\<close>, the
  value of \<^verbatim>\<open>keys[-1]\<close>.
\<close>

definition usedKey :: "(string \<times> Word list) list \<Rightarrow> string option" where
  "usedKey tgw =
     (let values = map (\<lambda>e. length (snd e)) tgw;
          mx = math_min values
      in case findIndex (\<lambda>e. Some e = mx) values of
           None \<Rightarrow> None
         | Some i \<Rightarrow> map_option fst (js_index tgw i))"

text \<open>
  \<open>Inl NoWordsRemaining\<close> is the \<^verbatim>\<open>Error('No words remaining')\<close> of line 276.
  \<open>Inl TypeError\<close> is what reading \<^verbatim>\<open>.word\<close> of \<^verbatim>\<open>undefined\<close> throws in line 303 when
  \<open>gradeWords\<close> returns an empty array, and what \<open>gradeWords\<close> throws on
  \<^verbatim>\<open>undefined\<close> words.
\<close>

definition guessWord :: "(char \<Rightarrow> real) \<Rightarrow> Game \<Rightarrow> error + Word" where
  "guessWord CHARS_GRADING g =
     (let ws = remaining g
      in if length ws = 0 then Inl NoWordsRemaining
         else if length ws = 1 then Inr (ws ! 0)
         else
           (let tgw = typeGradedWords g ws
            in case usedKey tgw of
                 None \<Rightarrow> Inl TypeError
               | Some k \<Rightarrow>
                   (case map_of tgw k of
                      None \<Rightarrow> Inl TypeError
                    | Some bucket \<Rightarrow>
                        (case gradeWords CHARS_GRADING g (1, 1, 1) bucket of
                           [] \<Rightarrow> Inl TypeError
                         | gw # _ \<Rightarrow> Inr (fst gw)))))"

section \<open>train\<close>

text \<open>
  The \<^verbatim>\<open>reduce\<close> of lines 390-405 over the games of one generation: \<open>tries\<close> holds
  \<^verbatim>\<open>game.wordFilters.length\<close> of each game, in order.
\<close>

definition generation_avg :: "nat list \<Rightarrow> real" where
  "generation_avg tries = fold (\<lambda>t avg. avg + real t / real (length tries)) tries 0"

text \<open>
  \<open>loop\<close> (lines 386-411) draws \<open>newParams\<close>, plays the games and updates the best
  pair. The random draws and the games they lead to are the input of the model: one
  pair of the sampled parameters and the try counts of its games per generation.
\<close>

record Best =
  bestAvg :: real
  bestAvgParams :: "real list"

definition loop :: "real list \<times> nat list \<Rightarrow> Best \<Rightarrow> Best" where
  "loop draw best =
     (case draw of (newParams, tries) \<Rightarrow>
        (let avg = generation_avg tries
         in if avg < bestAvg best then \<lparr> bestAvg = avg, bestAvgParams = newParams \<rparr> else best))"

definition train :: "(real list \<times> nat list) list \<Rightarrow> Best" where
  "train draws = fold loop draws \<lparr> bestAvg = 100, bestAvgParams = [] \<rparr>"

section \<open>The feedback rule in the words of the specification\<close>

text \<open>
  The two passes as the specification describes them, position by position: GREEN where
  guess and secret agree, YELLOW where the secret has the character at another index,
  GRAY otherwise; then a YELLOW whose character is GREEN at another index becomes GRAY.
\<close>

definition spec_classify :: "string \<Rightarrow> string \<Rightarrow> nat \<Rightarrow> color" where
  "spec_classify G S i =
     (if G ! i = S ! i then GREEN
      else if list_ex (\<lambda>j. j \<noteq> i \<and> S ! j = G ! i) [0..<length S] then YELLOW
      else GRAY)"

definition spec_feedback :: "string \<Rightarrow> string \<Rightarrow> position list" where
  "spec_feedback G S =
     map (\<lambda>i. \<lparr> character = G ! i,
               pvalue = (if spec_classify G S i = YELLOW \<and>
                            list_ex (\<lambda>j. j \<noteq> i \<and> spec_classify G S j = GREEN \<and> G ! j = G ! i)
                              [0..<length G]
                         then GRAY else spec_classify G S i) \<rparr>)
       [0..<length G]"

section \<open>The buckets in the words of the specification\<close>

text \<open>
  The seven keys in their fixed order, and the bucket of a key: the candidates that pass
  the gray filter if the key has a \<open>g\<close>, the green filter if it has a \<open>v\<close> and the yellow
  filter if it has a \<open>y\<close>.
\<close>

definition bucket_keys :: "string list" where
  "bucket_keys = [''g'', ''v'', ''y'', ''gv'', ''gy'', ''yv'', ''gvy'']"

definition spec_bucket :: "Game \<Rightarrow> string \<Rightarrow> Word list \<Rightarrow> Word list" where
  "spec_bucket g k ws =
     filter (\<lambda>w. (if CHR ''g'' \<in> set k then gray (evaluateWord g w) else True) \<and>
                 (if CHR ''v'' \<in> set k then green (evaluateWord g w) else True) \<and>
                 (if CHR ''y'' \<in> set k then yellow (evaluateWord g w) else True)) ws"

section \<open>Auxiliary notions for the proofs\<close>

text \<open>
  The characters that are GREEN somewhere in a feedback, and the effect of the second
  pass on one position given that set.
\<close>

definition greens_of :: "position list \<Rightarrow> char set" where
  "greens_of ps = character ` {p \<in> set ps. pvalue p = GREEN}"

definition settle :: "char set \<Rightarrow> position \<Rightarrow> position" where
  "settle G p = (if pvalue p = YELLOW \<and> character p \<in> G then \<lparr>character = character p, pvalue = GRAY\<rparr> else p)"

section \<open>Properties of newTry\<close>

lemma settle_character: "character (settle G p) = character p"
  by (simp add: settle_def)

lemma settle_green: "pvalue (settle G p) = GREEN \<longleftrightarrow> pvalue p = GREEN"
  by (simp add: settle_def)

lemma greens_of_settle: "greens_of (pre @ settle G p # suf) = greens_of (pre @ p # suf)"
  by (auto simp: greens_of_def settle_def image_iff)

lemma downgrade_at:
  assumes "length pre = k" "character p = c"
  shows "downgrade (k, c) (pre @ p # suf) = pre @ settle (greens_of (pre @ p # suf)) p # suf"
proof -
  have nth: "(pre @ p # suf) ! k = p"
    using assms(1) by (simp add: nth_append)
  have upd: "(pre @ p # suf)[k := q] = pre @ q # suf" for q
    using assms(1) by (simp add: list_update_append)
  have gs: "set (map character (filter (\<lambda>p. pvalue p = GREEN) (pre @ p # suf))) = greens_of (pre @ p # suf)"
    unfolding greens_of_def by auto
  show ?thesis
    unfolding downgrade_def settle_def Let_def gs prod.case nth upd
    using assms(2) by simp
qed

lemma fold_downgrade:
  "length pre = k \<Longrightarrow> map character suf = cs \<Longrightarrow>
   fold downgrade (enumerate k cs) (pre @ suf) = pre @ map (settle (greens_of (pre @ suf))) suf"
proof (induction cs arbitrary: pre suf k)
  case Nil
  then show ?case by simp
next
  case (Cons c cs)
  then obtain p suf' where suf: "suf = p # suf'" "character p = c" "map character suf' = cs"
    by auto
  let ?G = "greens_of (pre @ p # suf')"
  have "fold downgrade (enumerate k (c # cs)) (pre @ suf)
        = fold downgrade (enumerate (Suc k) cs) ((pre @ [settle ?G p]) @ suf')"
    using Cons.prems(1) suf by (simp add: downgrade_at)
  also have "\<dots> = (pre @ [settle ?G p]) @ map (settle (greens_of ((pre @ [settle ?G p]) @ suf'))) suf'"
    using Cons.prems(1) suf by (intro Cons.IH) auto
  finally show ?case
    using suf by (simp add: greens_of_settle)
qed

lemma first_pass_character: "map character (first_pass s w) = characters w"
proof -
  have "character (classify s i c) = c" for i c
    by (simp add: classify_def)
  then have "map character (first_pass s w) = map snd (enumerate 0 (characters w))"
    by (simp add: first_pass_def case_prod_unfold comp_def)
  then show ?thesis by (simp add: enumerate_eq_zip)
qed

lemma newTry_positions:
  "positions (newTry g w) = map (settle (greens_of (first_pass (secretWord g) w))) (first_pass (secretWord g) w)"
  using fold_downgrade[of "[]" 0 "first_pass (secretWord g) w" "characters w"]
  by (simp add: newTry_def first_pass_character)

lemma first_pass_length: "length (first_pass s w) = length (characters w)"
  by (simp add: first_pass_def)

lemma first_pass_nth:
  "i < length (characters w) \<Longrightarrow> first_pass s w ! i = classify s i (characters w ! i)"
  by (simp add: first_pass_def nth_enumerate_eq)

lemma classify_green: "pvalue (classify s i c) = GREEN \<longleftrightarrow> Some c = js_index (characters s) i"
  by (simp add: classify_def)

lemma newTry_length: "length (positions (newTry g w)) = length (characters w)"
  by (simp add: newTry_positions first_pass_length)

lemma newTry_nth:
  "i < length (characters w) \<Longrightarrow>
   positions (newTry g w) ! i =
     settle (greens_of (first_pass (secretWord g) w)) (first_pass (secretWord g) w ! i)"
  by (simp add: newTry_positions first_pass_length)

lemma greens_of_nth:
  "c \<in> greens_of ps \<longleftrightarrow> (\<exists>j<length ps. pvalue (ps ! j) = GREEN \<and> character (ps ! j) = c)"
  unfolding greens_of_def by (auto simp: in_set_conv_nth image_iff)

text \<open>
  Claim C1. For a guess and a secret of the same length, the feedback of \<open>newTry\<close>
  is a win exactly when the guess equals the secret character for character.
\<close>

theorem newTry_isWin_iff:
  assumes "length (characters w) = length (characters (secretWord g))"
  shows "isWin (newTry g w) \<longleftrightarrow> characters w = characters (secretWord g)"
proof -
  let ?s = "secretWord g"
  let ?fp = "first_pass ?s w"
  have "isWin (newTry g w) \<longleftrightarrow> (\<forall>p\<in>set ?fp. pvalue p = GREEN)"
    by (simp add: isWin_def newTry_positions list_all_iff settle_green)
  also have "\<dots> \<longleftrightarrow> (\<forall>i<length (characters w). pvalue (?fp ! i) = GREEN)"
    by (simp add: all_set_conv_all_nth first_pass_length)
  also have "\<dots> \<longleftrightarrow> (\<forall>i<length (characters w). characters w ! i = characters ?s ! i)"
    using assms by (auto simp: first_pass_nth classify_green js_index_def)
  also have "\<dots> \<longleftrightarrow> characters w = characters ?s"
    using assms by (auto intro: nth_equalityI)
  finally show ?thesis .
qed

theorem newTry_isWin_iff_witness:
  "length (characters (Word_of ''apple'')) =
     length (characters (secretWord (Game_constructor ''apple'' [''apple'', ''ample'']))) \<and>
   isWin (newTry (Game_constructor ''apple'' [''apple'', ''ample'']) (Word_of ''apple'')) \<and>
   \<not> isWin (newTry (Game_constructor ''apple'' [''apple'', ''ample'']) (Word_of ''ample''))"
proof -
  let ?g = "Game_constructor ''apple'' [''apple'', ''ample'']"
  have h1: "length (characters (Word_of ''apple'')) = length (characters (secretWord ?g))"
    by (simp add: Game_constructor_def Word_of_def)
  have h2: "length (characters (Word_of ''ample'')) = length (characters (secretWord ?g))"
    by (simp add: Game_constructor_def Word_of_def)
  have "isWin (newTry ?g (Word_of ''apple''))"
    using newTry_isWin_iff [OF h1] by (simp add: Game_constructor_def Word_of_def)
  moreover have "\<not> isWin (newTry ?g (Word_of ''ample''))"
    using newTry_isWin_iff [OF h2] by (simp add: Game_constructor_def Word_of_def)
  ultimately show ?thesis using h1 by simp
qed

text \<open>
  Claim C10. The feedback of \<open>newTry\<close> has one position per character of the guess,
  position \<open>i\<close> carries the guess's character at \<open>i\<close>, and the second pass leaves every
  position that the first pass made GREEN or GRAY as it was, and turns a YELLOW one into
  nothing but YELLOW or GRAY.
\<close>

theorem newTry_keeps_characters:
  "length (positions (newTry g w)) = length (characters w) \<and>
   map character (positions (newTry g w)) = characters w \<and>
   (\<forall>i<length (characters w).
      character (positions (newTry g w) ! i) = characters w ! i \<and>
      (if pvalue (first_pass (secretWord g) w ! i) = YELLOW
       then pvalue (positions (newTry g w) ! i) = YELLOW \<or> pvalue (positions (newTry g w) ! i) = GRAY
       else positions (newTry g w) ! i = first_pass (secretWord g) w ! i))"
proof (intro conjI allI impI)
  show "length (positions (newTry g w)) = length (characters w)"
    by (rule newTry_length)
  show chars: "map character (positions (newTry g w)) = characters w"
    by (simp add: newTry_positions comp_def settle_character first_pass_character [unfolded comp_def])
  fix i assume i: "i < length (characters w)"
  show "character (positions (newTry g w) ! i) = characters w ! i"
    using i nth_map [of i "positions (newTry g w)" character] by (simp add: chars newTry_length)
  show "if pvalue (first_pass (secretWord g) w ! i) = YELLOW
       then pvalue (positions (newTry g w) ! i) = YELLOW \<or> pvalue (positions (newTry g w) ! i) = GRAY
       else positions (newTry g w) ! i = first_pass (secretWord g) w ! i"
    using i by (simp add: newTry_nth settle_def)
qed

theorem newTry_keeps_characters_witness:
  "(4::nat) < length (characters (Word_of ''aaxba'')) \<and>
   length (positions (newTry (Game_constructor ''aabcd'' []) (Word_of ''aaxba''))) = 5 \<and>
   map character (positions (newTry (Game_constructor ''aabcd'' []) (Word_of ''aaxba''))) = ''aaxba'' \<and>
   pvalue (first_pass (secretWord (Game_constructor ''aabcd'' [])) (Word_of ''aaxba'') ! 4) = YELLOW \<and>
   character (positions (newTry (Game_constructor ''aabcd'' []) (Word_of ''aaxba'')) ! 4) = CHR ''a'' \<and>
   (pvalue (positions (newTry (Game_constructor ''aabcd'' []) (Word_of ''aaxba'')) ! 4) = YELLOW \<or>
    pvalue (positions (newTry (Game_constructor ''aabcd'' []) (Word_of ''aaxba'')) ! 4) = GRAY)"
proof -
  let ?g = "Game_constructor ''aabcd'' []" and ?w = "Word_of ''aaxba''"
  have len: "(4::nat) < length (characters ?w)"
    by (simp add: Word_of_def)
  have yel: "pvalue (first_pass (secretWord ?g) ?w ! 4) = YELLOW"
    by (simp add: Game_constructor_def Word_of_def first_pass_def classify_def js_index_def
        enumerate_eq_zip upt_rec)
  have all: "length (positions (newTry ?g ?w)) = length (characters ?w) \<and>
      map character (positions (newTry ?g ?w)) = characters ?w"
    using newTry_keeps_characters [of ?g ?w] by blast
  have at4: "character (positions (newTry ?g ?w) ! 4) = characters ?w ! 4 \<and>
      (pvalue (positions (newTry ?g ?w) ! 4) = YELLOW \<or> pvalue (positions (newTry ?g ?w) ! 4) = GRAY)"
    using newTry_keeps_characters [of ?g ?w] len yel by presburger
  show ?thesis
    using len yel all at4 by (simp add: Word_of_def)
qed

lemma classify_spec:
  assumes "length G = length (characters s)" "i < length G"
  shows "classify s i (G ! i) = \<lparr>character = G ! i, pvalue = spec_classify G (characters s) i\<rparr>"
proof -
  have "G ! i \<in> set (characters s) \<longleftrightarrow> (\<exists>j<length (characters s). j \<noteq> i \<and> characters s ! j = G ! i)"
    if "G ! i \<noteq> characters s ! i"
    using that by (metis in_set_conv_nth)
  then show ?thesis
    using assms by (auto simp: classify_def spec_classify_def js_index_def list_ex_iff)
qed

text \<open>
  Claim C2. For a guess and a secret of the same length, \<open>newTry\<close> computes the two
  passes of the specification: GREEN where the characters agree, YELLOW where the secret
  has the guess's character at another index, GRAY otherwise, and then GRAY for every
  YELLOW whose character is GREEN at another index. For the secret "aabcd" and the guess
  "aaxyz" the result is GREEN, GREEN, GRAY, GRAY, GRAY.
\<close>

theorem newTry_two_passes:
  "(length (characters w) = length (characters (secretWord g)) \<longrightarrow>
      positions (newTry g w) = spec_feedback (characters w) (characters (secretWord g))) \<and>
   positions (newTry (Game_constructor ''aabcd'' ds) (Word_of ''aaxyz'')) =
     [\<lparr>character = CHR ''a'', pvalue = GREEN\<rparr>, \<lparr>character = CHR ''a'', pvalue = GREEN\<rparr>,
      \<lparr>character = CHR ''x'', pvalue = GRAY\<rparr>, \<lparr>character = CHR ''y'', pvalue = GRAY\<rparr>,
      \<lparr>character = CHR ''z'', pvalue = GRAY\<rparr>]"
proof (intro conjI impI)
  assume len: "length (characters w) = length (characters (secretWord g))"
  let ?G = "characters w" and ?s = "secretWord g"
  let ?fp = "first_pass ?s w"
  have fp: "?fp ! i = \<lparr>character = ?G ! i, pvalue = spec_classify ?G (characters ?s) i\<rparr>"
    if "i < length ?G" for i
    using that len by (simp add: first_pass_nth classify_spec)
  have gr: "c \<in> greens_of ?fp \<longleftrightarrow>
      (\<exists>j<length ?G. spec_classify ?G (characters ?s) j = GREEN \<and> ?G ! j = c)" for c
    by (auto simp: greens_of_nth first_pass_length fp)
  show "positions (newTry g w) = spec_feedback ?G (characters ?s)"
  proof (rule nth_equalityI)
    show "length (positions (newTry g w)) = length (spec_feedback ?G (characters ?s))"
      by (simp add: newTry_length spec_feedback_def)
    fix i assume "i < length (positions (newTry g w))"
    then have i: "i < length ?G" by (simp add: newTry_length)
    have "(\<exists>j<length ?G. spec_classify ?G (characters ?s) j = GREEN \<and> ?G ! j = ?G ! i) \<longleftrightarrow>
          (\<exists>j<length ?G. j \<noteq> i \<and> spec_classify ?G (characters ?s) j = GREEN \<and> ?G ! j = ?G ! i)"
      if "spec_classify ?G (characters ?s) i = YELLOW"
      using that by (metis color.distinct(5))
    then show "positions (newTry g w) ! i = spec_feedback ?G (characters ?s) ! i"
      using i by (auto simp: newTry_nth fp settle_def gr spec_feedback_def list_ex_iff)
  qed
next
  show "positions (newTry (Game_constructor ''aabcd'' ds) (Word_of ''aaxyz'')) =
     [\<lparr>character = CHR ''a'', pvalue = GREEN\<rparr>, \<lparr>character = CHR ''a'', pvalue = GREEN\<rparr>,
      \<lparr>character = CHR ''x'', pvalue = GRAY\<rparr>, \<lparr>character = CHR ''y'', pvalue = GRAY\<rparr>,
      \<lparr>character = CHR ''z'', pvalue = GRAY\<rparr>]"
    by (simp add: newTry_def Game_constructor_def Word_of_def first_pass_def classify_def
        downgrade_def js_index_def enumerate_eq_zip upt_rec)
qed

theorem newTry_two_passes_witness:
  "length (characters (Word_of ''xaxxa'')) =
     length (characters (secretWord (Game_constructor ''aabcd'' []))) \<and>
   positions (newTry (Game_constructor ''aabcd'' []) (Word_of ''xaxxa'')) =
     spec_feedback ''xaxxa'' ''aabcd'' \<and>
   spec_feedback ''xaxxa'' ''aabcd'' =
     [\<lparr>character = CHR ''x'', pvalue = GRAY\<rparr>, \<lparr>character = CHR ''a'', pvalue = GREEN\<rparr>,
      \<lparr>character = CHR ''x'', pvalue = GRAY\<rparr>, \<lparr>character = CHR ''x'', pvalue = GRAY\<rparr>,
      \<lparr>character = CHR ''a'', pvalue = GRAY\<rparr>]"
proof -
  let ?g = "Game_constructor ''aabcd'' []" and ?w = "Word_of ''xaxxa''"
  have len: "length (characters ?w) = length (characters (secretWord ?g))"
    by (simp add: Game_constructor_def Word_of_def)
  have "positions (newTry ?g ?w) = spec_feedback (characters ?w) (characters (secretWord ?g))"
    using newTry_two_passes [of ?w ?g] len by blast
  then have eq: "positions (newTry ?g ?w) = spec_feedback ''xaxxa'' ''aabcd''"
    by (simp add: Game_constructor_def Word_of_def)
  have val: "spec_feedback ''xaxxa'' ''aabcd'' =
     [\<lparr>character = CHR ''x'', pvalue = GRAY\<rparr>, \<lparr>character = CHR ''a'', pvalue = GREEN\<rparr>,
      \<lparr>character = CHR ''x'', pvalue = GRAY\<rparr>, \<lparr>character = CHR ''x'', pvalue = GRAY\<rparr>,
      \<lparr>character = CHR ''a'', pvalue = GRAY\<rparr>]"
    by (simp add: spec_feedback_def spec_classify_def upt_rec)
  show ?thesis using len eq val by simp
qed

section \<open>Properties of the JavaScript helpers\<close>

lemma js_index_Some: "js_index xs i = Some v \<longleftrightarrow> i < length xs \<and> xs ! i = v"
  by (auto simp: js_index_def)

lemma js_index_js_assign_same: "js_index (js_assign acc i v) i = Some (Some v)"
  by (simp add: js_index_def js_assign_def nth_append)

lemma js_index_js_assign_other:
  "j \<noteq> i \<Longrightarrow> js_index acc j = Some (Some c) \<Longrightarrow> js_index (js_assign acc i v) j = Some (Some c)"
  by (auto simp: js_index_Some js_assign_def nth_append)

lemma in_set_js_index: "Some c \<in> set acc \<longleftrightarrow> (\<exists>j. js_index acc j = Some (Some c))"
  by (auto simp: js_index_Some in_set_conv_nth)

lemma set_array_from_set: "set (array_from_set xs) = set xs"
  by (simp add: array_from_set_def)

lemma list_all_enumerate:
  "list_all P (enumerate 0 xs) \<longleftrightarrow> (\<forall>i<length xs. P (i, xs ! i))"
  by (simp add: list_all_length nth_enumerate_eq)

lemma in_enumerate_0: "(i, p) \<in> set (enumerate 0 ps) \<longleftrightarrow> i < length ps \<and> ps ! i = p"
  by (auto simp: in_set_enumerate_eq)

lemma fold_fold_concat:
  "fold (\<lambda>x acc. fold f (h x) acc) xs acc = fold f (concat (map h xs)) acc"
  by (induction xs arbitrary: acc) simp_all

lemma findIndex_Some:
  "findIndex p xs = Some i \<longleftrightarrow> i < length xs \<and> p (xs ! i) \<and> (\<forall>j<i. \<not> p (xs ! j))"
proof (induction xs arbitrary: i)
  case Nil
  show ?case by simp
next
  case (Cons x xs)
  show ?case
  proof (cases "p x")
    case True
    then show ?thesis by (cases i) auto
  next
    case False
    show ?thesis
    proof (cases i)
      case 0
      with False show ?thesis by (simp split: option.splits)
    next
      case (Suc k)
      have "(\<forall>j<Suc k. \<not> p ((x # xs) ! j)) \<longleftrightarrow> (\<forall>j<k. \<not> p (xs ! j))"
        using False by (auto simp: less_Suc_eq_0_disj)
      with False Suc Cons.IH [of k] show ?thesis
        by (auto split: option.splits)
    qed
  qed
qed

lemma findIndex_exists:
  "x \<in> set xs \<Longrightarrow> p x \<Longrightarrow> \<exists>i. findIndex p xs = Some i"
  by (induction xs) (auto split: option.splits)

lemma math_min_Min:
  assumes "xs \<noteq> []"
  shows "math_min xs = Some (Min (set xs))"
proof (cases xs)
  case Nil
  with assms show ?thesis by simp
next
  case (Cons a list)
  show ?thesis
    unfolding Cons math_min.simps using Min.set_eq_fold [of a list] by simp
qed

section \<open>The Word constructor\<close>

lemma characters_Word_of: "characters (Word_of t) = t"
  by (simp add: Word_of_def)

text \<open>
  Claim C8, as amended. The constructor has no length test: it succeeds on every string,
  of whatever length, keeps the string's characters, and \<open>toString\<close> gives the string
  back.
\<close>

theorem Word_constructor_succeeds:
  "Word_constructor text = Inr (Word_of text) \<and> characters (Word_of text) = text \<and>
   toString (Word_of text) = text"
  by (simp add: Word_constructor_def Word_of_def toString_def)

text \<open>
  Against claim C8 as stated: the empty string, which line 435 passes as the secret, has
  length 0, not 5, and is constructed without an error.
\<close>

theorem Word_constructor_accepts_empty:
  "length '''' \<noteq> (5::nat) \<and>
   Word_constructor '''' =
     Inr \<lparr>characters = [], vowels = [], consonants = [], repeatedCharaters = Map.empty\<rparr>"
  by (simp add: Word_constructor_def Word_of_def)

section \<open>The feedback of newTry against one secret\<close>

lemma newTry_characters: "map character (positions (newTry g w)) = characters w"
  by (simp add: newTry_positions comp_def settle_character first_pass_character [unfolded comp_def])

lemma usedWords_submit: "usedWords (submit g w) = usedWords g @ [characters w]"
  by (simp add: usedWords_def submit_def newTry_characters)

lemma wordFilters_submit: "wordFilters (submit g w) = wordFilters g @ [newTry g w]"
  by (simp add: submit_def)

lemma newTry_submit: "newTry (submit g w') w = newTry g w"
  by (simp add: newTry_def submit_def)

lemma allWords_submit: "allWords (submit g w) = allWords g"
  by (simp add: submit_def)

lemma newTry_green_pinned:
  assumes "i < length (positions (newTry g w))" "pvalue (positions (newTry g w) ! i) = GREEN"
  shows "js_index (characters (secretWord g)) i = Some (character (positions (newTry g w) ! i))"
proof -
  have i: "i < length (characters w)" using assms(1) by (simp add: newTry_length)
  have "pvalue (classify (secretWord g) i (characters w ! i)) = GREEN"
    using assms(2) i by (simp add: newTry_nth settle_green first_pass_nth)
  moreover have "character (positions (newTry g w) ! i) = characters w ! i"
    using i by (simp add: newTry_nth settle_character first_pass_nth classify_def)
  ultimately show ?thesis by (simp add: classify_green)
qed

lemma newTry_yellow_in_secret:
  assumes "i < length (positions (newTry g w))" "pvalue (positions (newTry g w) ! i) = YELLOW"
  shows "character (positions (newTry g w) ! i) \<in> set (characters (secretWord g))"
proof -
  have i: "i < length (characters w)" using assms(1) by (simp add: newTry_length)
  then show ?thesis
    using assms(2) by (auto simp: newTry_nth first_pass_nth settle_def classify_def split: if_splits)
qed

lemma newTry_gray_cases:
  assumes "i < length (positions (newTry g w))" "pvalue (positions (newTry g w) ! i) = GRAY"
  shows "character (positions (newTry g w) ! i) \<notin> set (characters (secretWord g)) \<or>
         (\<exists>j<length (positions (newTry g w)). pvalue (positions (newTry g w) ! j) = GREEN \<and>
            character (positions (newTry g w) ! j) = character (positions (newTry g w) ! i))"
proof -
  let ?fp = "first_pass (secretWord g) w"
  have i: "i < length (characters w)" using assms(1) by (simp add: newTry_length)
  have ch: "character (positions (newTry g w) ! k) = character (?fp ! k)"
    and gr: "pvalue (positions (newTry g w) ! k) = GREEN \<longleftrightarrow> pvalue (?fp ! k) = GREEN"
    if "k < length (characters w)" for k
    using that by (simp_all add: newTry_nth settle_character settle_green)
  show ?thesis
  proof (cases "pvalue (?fp ! i) = GRAY")
    case True
    then have "character (?fp ! i) \<notin> set (characters (secretWord g))"
      using i by (auto simp: first_pass_nth classify_def split: if_splits)
    then show ?thesis using ch [OF i] by simp
  next
    case False
    then have "character (?fp ! i) \<in> greens_of ?fp"
      using assms(2) i by (auto simp: newTry_nth settle_def split: if_splits)
    then obtain j where "j < length ?fp" "pvalue (?fp ! j) = GREEN" "character (?fp ! j) = character (?fp ! i)"
      by (auto simp: greens_of_nth)
    then show ?thesis
      using ch gr i by (auto simp: first_pass_length newTry_length)
  qed
qed

section \<open>The constraint state\<close>

lemma green_write_keeps:
  assumes "js_index acc j = Some (Some c)"
    and "pvalue p = GREEN \<Longrightarrow> i = j \<Longrightarrow> character p = c"
  shows "js_index (green_write (i, p) acc) j = Some (Some c)"
proof (cases "pvalue p = GREEN")
  case False
  with assms(1) show ?thesis by (simp add: green_write_def)
next
  case True
  show ?thesis
  proof (cases "i = j")
    case True
    with \<open>pvalue p = GREEN\<close> assms(2) show ?thesis
      by (simp add: green_write_def js_index_js_assign_same)
  next
    case False
    with \<open>pvalue p = GREEN\<close> assms(1) show ?thesis
      by (simp add: green_write_def js_index_js_assign_other)
  qed
qed

lemma fold_green_write_keeps:
  assumes "js_index acc j = Some (Some c)"
    and "\<And>i p. (i, p) \<in> set ips \<Longrightarrow> pvalue p = GREEN \<Longrightarrow> i = j \<Longrightarrow> character p = c"
  shows "js_index (fold green_write ips acc) j = Some (Some c)"
  using assms
proof (induction ips arbitrary: acc)
  case Nil
  then show ?case by simp
next
  case (Cons x ips)
  obtain i p where x: "x = (i, p)" by (cases x)
  have "js_index (green_write (i, p) acc) j = Some (Some c)"
    using Cons.prems(1) by (rule green_write_keeps) (use Cons.prems(2) x in auto)
  then have "js_index (fold green_write ips (green_write (i, p) acc)) j = Some (Some c)"
    by (rule Cons.IH) (use Cons.prems(2) in auto)
  then show ?case by (simp add: x)
qed

lemma fold_green_write_sets:
  assumes "(j, q) \<in> set ips" "pvalue q = GREEN"
    and "\<And>i p. (i, p) \<in> set ips \<Longrightarrow> pvalue p = GREEN \<Longrightarrow> i = j \<Longrightarrow> character p = character q"
  shows "js_index (fold green_write ips acc) j = Some (Some (character q))"
  using assms
proof (induction ips arbitrary: acc)
  case Nil
  then show ?case by simp
next
  case (Cons x ips)
  show ?case
  proof (cases "(j, q) \<in> set ips")
    case True
    then have "js_index (fold green_write ips (green_write x acc)) j = Some (Some (character q))"
      using Cons.prems(2) by (rule Cons.IH) (use Cons.prems(3) in auto)
    then show ?thesis by simp
  next
    case False
    with Cons.prems(1) have x: "x = (j, q)" by simp
    have "js_index (green_write (j, q) acc) j = Some (Some (character q))"
      using Cons.prems(2) by (simp add: green_write_def js_index_js_assign_same)
    then have "js_index (fold green_write ips (green_write (j, q) acc)) j = Some (Some (character q))"
      by (rule fold_green_write_keeps) (use Cons.prems(3) in auto)
    then show ?thesis by (simp add: x)
  qed
qed

lemma greenChars_flat:
  "greenChars g =
     fold green_write (concat (map (\<lambda>flt. enumerate 0 (positions flt)) (wordFilters g)))
       [None, None, None, None, None]"
  by (simp add: greenChars_def fold_fold_concat)

lemma greenChars_has_green:
  assumes hist: "wordFilters g = map (newTry g) ws"
    and w: "w \<in> set ws" and j: "j < length (positions (newTry g w))"
    and green: "pvalue (positions (newTry g w) ! j) = GREEN"
  shows "Some (character (positions (newTry g w) ! j)) \<in> set (greenChars g)"
proof -
  let ?q = "positions (newTry g w) ! j"
  let ?ips = "concat (map (\<lambda>flt. enumerate 0 (positions flt)) (wordFilters g))"
  have pin: "js_index (characters (secretWord g)) j = Some (character ?q)"
    using j green by (rule newTry_green_pinned)
  have mem: "(j, ?q) \<in> set ?ips"
    using w j by (auto simp: hist in_enumerate_0)
  have same: "character p = character ?q"
    if "(i, p) \<in> set ?ips" "pvalue p = GREEN" "i = j" for i p
  proof -
    from that(1) obtain w' where "w' \<in> set ws" "i < length (positions (newTry g w'))"
      "positions (newTry g w') ! i = p"
      by (auto simp: hist in_enumerate_0)
    with that(2) have "js_index (characters (secretWord g)) i = Some (character p)"
      using newTry_green_pinned [of i g w'] by simp
    with pin that(3) show ?thesis by simp
  qed
  have "js_index (greenChars g) j = Some (Some (character ?q))"
    unfolding greenChars_flat using mem green same by (rule fold_green_write_sets)
  then show ?thesis by (auto simp: in_set_js_index)
qed

lemma set_grayChars:
  "set (grayChars g) =
     {c. \<exists>flt\<in>set (wordFilters g). \<exists>p\<in>set (positions flt). pvalue p = GRAY \<and> character p = c}
       - {c. Some c \<in> set (greenChars g)}"
  by (auto simp: grayChars_def Let_def set_array_from_set)

lemma set_yellowChars:
  "set (yellowChars g) =
     {c. \<exists>flt\<in>set (wordFilters g). \<exists>p\<in>set (positions flt). pvalue p = YELLOW \<and> character p = c}
       - {c. Some c \<in> set (greenChars g)}"
  by (auto simp: yellowChars_def Let_def set_array_from_set)

lemma in_history:
  assumes "wordFilters g = map (newTry g) ws" "flt \<in> set (wordFilters g)" "p \<in> set (positions flt)"
  obtains w i where "w \<in> set ws" "i < length (positions (newTry g w))"
    "positions (newTry g w) ! i = p"
proof -
  from assms(1,2) obtain w where w: "w \<in> set ws" "flt = newTry g w" by auto
  from assms(3) obtain i where "i < length (positions flt)" "positions flt ! i = p"
    by (auto simp: in_set_conv_nth)
  with w that show thesis by simp
qed

text \<open>
  Claim C3, as amended. For every history, \<open>grayChars\<close> holds exactly the characters that
  are GRAY somewhere in the history and are not an entry of \<open>greenChars\<close>; \<open>yellowChars\<close>
  is not subtracted. When the history is the feedback of \<open>newTry\<close> for some guesses
  against the secret of the game, no character is in both \<open>grayChars\<close> and
  \<open>yellowChars\<close>.
\<close>

theorem grayChars_minus_green:
  "set (grayChars g) =
     {c. \<exists>flt\<in>set (wordFilters g). \<exists>p\<in>set (positions flt). pvalue p = GRAY \<and> character p = c}
       - {c. Some c \<in> set (greenChars g)} \<and>
   (wordFilters g = map (newTry g) ws \<longrightarrow> set (grayChars g) \<inter> set (yellowChars g) = {})"
proof (intro conjI impI)
  show "set (grayChars g) =
     {c. \<exists>flt\<in>set (wordFilters g). \<exists>p\<in>set (positions flt). pvalue p = GRAY \<and> character p = c}
       - {c. Some c \<in> set (greenChars g)}"
    by (rule set_grayChars)
next
  assume hist: "wordFilters g = map (newTry g) ws"
  show "set (grayChars g) \<inter> set (yellowChars g) = {}"
  proof (rule ccontr)
    assume "set (grayChars g) \<inter> set (yellowChars g) \<noteq> {}"
    then obtain c where cg: "c \<in> set (grayChars g)" and cy: "c \<in> set (yellowChars g)"
      by auto
    from cy obtain flt p where "flt \<in> set (wordFilters g)" "p \<in> set (positions flt)"
      "pvalue p = YELLOW" "character p = c"
      unfolding set_yellowChars by blast
    then obtain wy i where "wy \<in> set ws" "i < length (positions (newTry g wy))"
      "pvalue (positions (newTry g wy) ! i) = YELLOW" "character (positions (newTry g wy) ! i) = c"
      using in_history [OF hist] by metis
    then have in_secret: "c \<in> set (characters (secretWord g))"
      using newTry_yellow_in_secret [of i g wy] by simp
    from cg have not_green: "Some c \<notin> set (greenChars g)"
      by (simp add: set_grayChars)
    from cg obtain flt' p' where "flt' \<in> set (wordFilters g)" "p' \<in> set (positions flt')"
      "pvalue p' = GRAY" "character p' = c"
      unfolding set_grayChars by blast
    then obtain w k where w: "w \<in> set ws" and k: "k < length (positions (newTry g w))"
      and gray: "pvalue (positions (newTry g w) ! k) = GRAY"
      and ck: "character (positions (newTry g w) ! k) = c"
      using in_history [OF hist] by metis
    from newTry_gray_cases [OF k gray] in_secret ck
    obtain j where j: "j < length (positions (newTry g w))"
      and "pvalue (positions (newTry g w) ! j) = GREEN"
      and "character (positions (newTry g w) ! j) = c"
      by auto
    with greenChars_has_green [OF hist w j] have "Some c \<in> set (greenChars g)"
      by simp
    with not_green show False by contradiction
  qed
qed

text \<open>
  Against claim C3 as stated: a history entered by hand, as lines 436-472 do, with the
  feedback of the real game for the guess "aabcd" (first \<open>a\<close> YELLOW, second \<open>a\<close> GRAY).
  The character \<open>a\<close> is in \<open>yellowChars\<close> and in \<open>grayChars\<close>.
\<close>

theorem grayChars_overlaps_yellowChars:
  "yellowChars ((Game_constructor '''' [])\<lparr>wordFilters :=
       [\<lparr>positions = [\<lparr>character = CHR ''a'', pvalue = YELLOW\<rparr>, \<lparr>character = CHR ''a'', pvalue = GRAY\<rparr>,
          \<lparr>character = CHR ''b'', pvalue = GRAY\<rparr>, \<lparr>character = CHR ''c'', pvalue = GRAY\<rparr>,
          \<lparr>character = CHR ''d'', pvalue = GRAY\<rparr>]\<rparr>]\<rparr>) = ''a'' \<and>
   grayChars ((Game_constructor '''' [])\<lparr>wordFilters :=
       [\<lparr>positions = [\<lparr>character = CHR ''a'', pvalue = YELLOW\<rparr>, \<lparr>character = CHR ''a'', pvalue = GRAY\<rparr>,
          \<lparr>character = CHR ''b'', pvalue = GRAY\<rparr>, \<lparr>character = CHR ''c'', pvalue = GRAY\<rparr>,
          \<lparr>character = CHR ''d'', pvalue = GRAY\<rparr>]\<rparr>]\<rparr>) = ''abcd''"
proof -
  let ?g = "(Game_constructor '''' [])\<lparr>wordFilters :=
       [\<lparr>positions = [\<lparr>character = CHR ''a'', pvalue = YELLOW\<rparr>, \<lparr>character = CHR ''a'', pvalue = GRAY\<rparr>,
          \<lparr>character = CHR ''b'', pvalue = GRAY\<rparr>, \<lparr>character = CHR ''c'', pvalue = GRAY\<rparr>,
          \<lparr>character = CHR ''d'', pvalue = GRAY\<rparr>]\<rparr>]\<rparr>"
  have green: "greenChars ?g = [None, None, None, None, None]"
    by (simp add: greenChars_def green_write_def enumerate_eq_zip upt_rec)
  have "yellowChars ?g = ''a''"
    by (simp add: yellowChars_def green array_from_set_def)
  moreover have "grayChars ?g = ''abcd''"
    by (simp add: grayChars_def green array_from_set_def)
  ultimately show ?thesis by (simp only: simp_thms)
qed

theorem grayChars_minus_green_witness:
  "wordFilters (submit (submit (Game_constructor ''aabcd'' []) (Word_of ''xaxxa'')) (Word_of ''bxxxx'')) =
     map (newTry (submit (submit (Game_constructor ''aabcd'' []) (Word_of ''xaxxa'')) (Word_of ''bxxxx'')))
       [Word_of ''xaxxa'', Word_of ''bxxxx''] \<and>
   set (grayChars (submit (submit (Game_constructor ''aabcd'' []) (Word_of ''xaxxa'')) (Word_of ''bxxxx''))) \<inter>
   set (yellowChars (submit (submit (Game_constructor ''aabcd'' []) (Word_of ''xaxxa'')) (Word_of ''bxxxx''))) = {} \<and>
   grayChars (submit (submit (Game_constructor ''aabcd'' []) (Word_of ''xaxxa'')) (Word_of ''bxxxx'')) = ''x'' \<and>
   yellowChars (submit (submit (Game_constructor ''aabcd'' []) (Word_of ''xaxxa'')) (Word_of ''bxxxx'')) = ''b''"
proof -
  let ?init = "Game_constructor ''aabcd'' []"
  let ?g = "submit (submit ?init (Word_of ''xaxxa'')) (Word_of ''bxxxx'')"
  have hist: "wordFilters ?g = map (newTry ?g) [Word_of ''xaxxa'', Word_of ''bxxxx'']"
    by (simp add: wordFilters_submit newTry_submit Game_constructor_def)
  have disj: "set (grayChars ?g) \<inter> set (yellowChars ?g) = {}"
    using grayChars_minus_green [of ?g "[Word_of ''xaxxa'', Word_of ''bxxxx'']"] hist by blast
  have nt1: "newTry ?g (Word_of ''xaxxa'') =
      \<lparr>positions = [\<lparr>character = CHR ''x'', pvalue = GRAY\<rparr>, \<lparr>character = CHR ''a'', pvalue = GREEN\<rparr>,
        \<lparr>character = CHR ''x'', pvalue = GRAY\<rparr>, \<lparr>character = CHR ''x'', pvalue = GRAY\<rparr>,
        \<lparr>character = CHR ''a'', pvalue = GRAY\<rparr>]\<rparr>"
    by (simp add: newTry_def submit_def Game_constructor_def characters_Word_of first_pass_def classify_def
        downgrade_def js_index_def enumerate_eq_zip upt_rec)
  have nt2: "newTry ?g (Word_of ''bxxxx'') =
      \<lparr>positions = [\<lparr>character = CHR ''b'', pvalue = YELLOW\<rparr>, \<lparr>character = CHR ''x'', pvalue = GRAY\<rparr>,
        \<lparr>character = CHR ''x'', pvalue = GRAY\<rparr>, \<lparr>character = CHR ''x'', pvalue = GRAY\<rparr>,
        \<lparr>character = CHR ''x'', pvalue = GRAY\<rparr>]\<rparr>"
    by (simp add: newTry_def submit_def Game_constructor_def characters_Word_of first_pass_def classify_def
        downgrade_def js_index_def enumerate_eq_zip upt_rec)
  have green: "greenChars ?g = [None, Some CHR ''a'', None, None, None]"
    unfolding greenChars_def hist
    by (simp add: nt1 nt2 green_write_def js_assign_def enumerate_eq_zip upt_rec)
  have gray: "grayChars ?g = ''x''"
    unfolding grayChars_def hist green
    by (simp add: nt1 nt2 array_from_set_def)
  have yellow: "yellowChars ?g = ''b''"
    unfolding yellowChars_def hist green
    by (simp add: nt1 nt2 array_from_set_def)
  show ?thesis
    using hist disj gray yellow by blast
qed

section \<open>evaluateWord\<close>

text \<open>
  Claim C5. The word passes gray exactly when it has no character of \<open>grayChars\<close>,
  passes green exactly when at every index where \<open>greenChars\<close> holds a character the
  word holds that character, and passes yellow exactly when it has every character of
  \<open>yellowChars\<close>.
\<close>

theorem evaluateWord_meaning:
  "(gray (evaluateWord g w) \<longleftrightarrow> set (characters w) \<inter> set (grayChars g) = {}) \<and>
   (green (evaluateWord g w) \<longleftrightarrow>
      (\<forall>i c. js_index (greenChars g) i = Some (Some c) \<longrightarrow> js_index (characters w) i = Some c)) \<and>
   (yellow (evaluateWord g w) \<longleftrightarrow> set (yellowChars g) \<subseteq> set (characters w))"
proof (intro conjI)
  show "gray (evaluateWord g w) \<longleftrightarrow> set (characters w) \<inter> set (grayChars g) = {}"
    by (auto simp: evaluateWord_def Let_def list_ex_iff hasChar_def)
  show "green (evaluateWord g w) \<longleftrightarrow>
      (\<forall>i c. js_index (greenChars g) i = Some (Some c) \<longrightarrow> js_index (characters w) i = Some c)"
  proof -
    have "green (evaluateWord g w) \<longleftrightarrow>
        (\<forall>i<length (greenChars g). \<forall>c. greenChars g ! i = Some c \<longrightarrow> js_index (characters w) i = Some c)"
      by (auto simp: evaluateWord_def Let_def list_all_enumerate split: option.splits)
    also have "\<dots> \<longleftrightarrow>
        (\<forall>i c. js_index (greenChars g) i = Some (Some c) \<longrightarrow> js_index (characters w) i = Some c)"
      by (auto simp: js_index_Some)
    finally show ?thesis .
  qed
  show "yellow (evaluateWord g w) \<longleftrightarrow> set (yellowChars g) \<subseteq> set (characters w)"
  proof -
    have "yellow (evaluateWord g w) \<longleftrightarrow>
        (\<forall>i<length (yellowChars g). yellowChars g ! i \<in> set (characters w))"
      by (auto simp: evaluateWord_def Let_def list_all_enumerate hasChar_def)
    also have "\<dots> \<longleftrightarrow> (\<forall>c\<in>set (yellowChars g). c \<in> set (characters w))"
      by (simp add: all_set_conv_all_nth)
    finally show ?thesis by blast
  qed
qed

theorem evaluateWord_meaning_witness:
  "js_index (greenChars (submit (Game_constructor ''aabcd'' []) (Word_of ''xaxxa''))) 1 = Some (Some CHR ''a'') \<and>
   green (evaluateWord (submit (Game_constructor ''aabcd'' []) (Word_of ''xaxxa'')) (Word_of ''baaaa'')) \<and>
   js_index (characters (Word_of ''baaaa'')) 1 = Some CHR ''a'' \<and>
   gray (evaluateWord (submit (Game_constructor ''aabcd'' []) (Word_of ''xaxxa'')) (Word_of ''baaaa'')) \<and>
   set (characters (Word_of ''baaaa'')) \<inter>
     set (grayChars (submit (Game_constructor ''aabcd'' []) (Word_of ''xaxxa''))) = {} \<and>
   \<not> gray (evaluateWord (submit (Game_constructor ''aabcd'' []) (Word_of ''xaxxa'')) (Word_of ''boxes''))"
proof -
  let ?init = "Game_constructor ''aabcd'' []"
  let ?g = "submit ?init (Word_of ''xaxxa'')"
  let ?w = "Word_of ''baaaa''"
  have nt: "newTry ?init (Word_of ''xaxxa'') =
      \<lparr>positions = [\<lparr>character = CHR ''x'', pvalue = GRAY\<rparr>, \<lparr>character = CHR ''a'', pvalue = GREEN\<rparr>,
        \<lparr>character = CHR ''x'', pvalue = GRAY\<rparr>, \<lparr>character = CHR ''x'', pvalue = GRAY\<rparr>,
        \<lparr>character = CHR ''a'', pvalue = GRAY\<rparr>]\<rparr>"
    by (simp add: newTry_def Game_constructor_def characters_Word_of first_pass_def classify_def
        downgrade_def js_index_def enumerate_eq_zip upt_rec)
  have wfs: "wordFilters ?g = [newTry ?init (Word_of ''xaxxa'')]"
    by (simp add: submit_def Game_constructor_def)
  have green: "greenChars ?g = [None, Some CHR ''a'', None, None, None]"
    by (simp add: greenChars_def wfs nt green_write_def js_assign_def enumerate_eq_zip upt_rec)
  have gray: "grayChars ?g = ''x''"
    by (simp add: grayChars_def wfs nt green array_from_set_def)
  have yellow: "yellowChars ?g = []"
    by (simp add: yellowChars_def wfs nt green array_from_set_def)
  have at1: "js_index (greenChars ?g) 1 = Some (Some CHR ''a'')"
    by (simp add: green js_index_def)
  have passes: "green (evaluateWord ?g ?w)"
    by (simp add: evaluateWord_def gray green yellow hasChar_def characters_Word_of js_index_def
        enumerate_eq_zip upt_rec)
  have disj: "set (characters ?w) \<inter> set (grayChars ?g) = {}"
    by (simp add: gray characters_Word_of)
  have hit: "set (characters (Word_of ''boxes'')) \<inter> set (grayChars ?g) \<noteq> {}"
    by (simp add: gray characters_Word_of)
  have "js_index (characters ?w) 1 = Some CHR ''a''"
    using evaluateWord_meaning [of ?g ?w] passes at1 by blast
  moreover have "gray (evaluateWord ?g ?w)"
    using evaluateWord_meaning [of ?g ?w] disj by blast
  moreover have "\<not> gray (evaluateWord ?g (Word_of ''boxes''))"
    using evaluateWord_meaning [of ?g "Word_of ''boxes''"] hit by blast
  ultimately show ?thesis
    using at1 passes disj by blast
qed

section \<open>guessWord\<close>

lemma guessWord_no_words: "guessWord G g = Inl NoWordsRemaining \<longleftrightarrow> remaining g = []"
  by (auto simp: guessWord_def Let_def split: option.splits list.splits)

text \<open>
  Claim C6. When exactly one word of the dictionary has not been guessed, \<open>guessWord\<close>
  returns that word, whatever the grading table: neither the buckets nor \<open>gradeWords\<close>
  are consulted.
\<close>

theorem guessWord_forced_move:
  "remaining g = [w] \<Longrightarrow> guessWord G g = Inr w"
  by (simp add: guessWord_def)

theorem guessWord_forced_move_witness:
  "remaining (submit (Game_constructor ''apple'' [''ample'', ''apple'']) (Word_of ''ample'')) =
     [Word_of ''apple''] \<and>
   guessWord (\<lambda>c. 0) (submit (Game_constructor ''apple'' [''ample'', ''apple'']) (Word_of ''ample'')) =
     Inr (Word_of ''apple'')"
proof -
  let ?g = "submit (Game_constructor ''apple'' [''ample'', ''apple'']) (Word_of ''ample'')"
  have rem: "remaining ?g = [Word_of ''apple'']"
    by (simp add: remaining_def usedWords_submit toString_def characters_Word_of)
       (simp add: submit_def Game_constructor_def usedWords_def characters_Word_of)
  show ?thesis
    using guessWord_forced_move [OF rem] rem by simp
qed

lemma usedKey_first_min:
  assumes "tgw \<noteq> []"
  shows "\<exists>i<length tgw. usedKey tgw = Some (fst (tgw ! i)) \<and>
           (\<forall>j<length tgw. length (snd (tgw ! i)) \<le> length (snd (tgw ! j))) \<and>
           (\<forall>j<i. length (snd (tgw ! i)) < length (snd (tgw ! j)))"
proof -
  let ?vs = "map (\<lambda>e. length (snd e)) tgw"
  define m where "m = Min (set ?vs)"
  have ne: "?vs \<noteq> []" using assms by simp
  have mm: "math_min ?vs = Some m"
    unfolding m_def using ne by (rule math_min_Min)
  have "m \<in> set ?vs"
    unfolding m_def using ne by (intro Min_in) auto
  then obtain i where i: "findIndex (\<lambda>e. Some e = Some m) ?vs = Some i"
    using findIndex_exists [of m ?vs "\<lambda>e. Some e = Some m"] by auto
  then have il: "i < length tgw" and iv: "?vs ! i = m" and ij: "\<forall>j<i. ?vs ! j \<noteq> m"
    by (auto simp: findIndex_Some)
  have vs: "?vs ! j = length (snd (tgw ! j))" if "j < length tgw" for j
    using that by simp
  have le: "m \<le> length (snd (tgw ! j))" if "j < length tgw" for j
  proof -
    have "?vs ! j \<in> set ?vs" using that by (intro nth_mem) simp
    then have "m \<le> ?vs ! j" unfolding m_def by (intro Min_le) auto
    then show ?thesis using vs [OF that] by simp
  qed
  have im: "length (snd (tgw ! i)) = m"
    using iv vs [OF il] by simp
  have "usedKey tgw = Some (fst (tgw ! i))"
    using i il by (simp add: usedKey_def mm js_index_def)
  moreover have "\<forall>j<length tgw. length (snd (tgw ! i)) \<le> length (snd (tgw ! j))"
    using le im by simp
  moreover have "\<forall>j<i. length (snd (tgw ! i)) < length (snd (tgw ! j))"
  proof (intro allI impI)
    fix j assume ji: "j < i"
    then have jl: "j < length tgw" using il by simp
    have "length (snd (tgw ! j)) \<noteq> m"
      using ij ji vs [OF jl] by metis
    with le [OF jl] im show "length (snd (tgw ! i)) < length (snd (tgw ! j))"
      by simp
  qed
  ultimately show ?thesis using il by blast
qed

lemma bucket_filter:
  "map snd (filter (\<lambda>(grade, w). P grade) (map (\<lambda>w. (evaluateWord g w, w)) ws)) =
   filter (\<lambda>w. P (evaluateWord g w)) ws"
  by (induction ws) auto

lemma typeGradedWords_spec:
  "typeGradedWords g ws = map (\<lambda>k. (k, spec_bucket g k ws)) bucket_keys"
  unfolding typeGradedWords_def Let_def bucket_filter
  by (simp add: bucket_keys_def spec_bucket_def)

text \<open>
  Claim C4. When more than one word remains, the buckets are those of the seven keys
  \<open>g\<close>, \<open>v\<close>, \<open>y\<close>, \<open>gv\<close>, \<open>gy\<close>, \<open>yv\<close>, \<open>gvy\<close>, each holding the remaining words that
  pass the filters its key names; the key used is the first one in that order whose bucket
  has the fewest words, and the guess is taken from the ranking of that bucket.
\<close>

theorem guessWord_fewest_bucket:
  assumes "1 < length (remaining g)"
  shows "typeGradedWords g (remaining g) =
           map (\<lambda>k. (k, spec_bucket g k (remaining g))) bucket_keys \<and>
         (\<exists>i<length bucket_keys.
           (\<forall>j<length bucket_keys.
              length (spec_bucket g (bucket_keys ! i) (remaining g))
                \<le> length (spec_bucket g (bucket_keys ! j) (remaining g))) \<and>
           (\<forall>j<i. length (spec_bucket g (bucket_keys ! i) (remaining g))
                < length (spec_bucket g (bucket_keys ! j) (remaining g))) \<and>
           usedKey (typeGradedWords g (remaining g)) = Some (bucket_keys ! i) \<and>
           guessWord G g =
             (case gradeWords G g (1, 1, 1) (spec_bucket g (bucket_keys ! i) (remaining g)) of
                [] \<Rightarrow> Inl TypeError
              | gw # _ \<Rightarrow> Inr (fst gw)))"
proof -
  let ?ws = "remaining g"
  let ?tgw = "typeGradedWords g ?ws"
  have tgw: "?tgw = map (\<lambda>k. (k, spec_bucket g k ?ws)) bucket_keys"
    by (rule typeGradedWords_spec)
  have len: "length ?tgw = length bucket_keys"
    by (simp add: tgw)
  have "?tgw \<noteq> []"
    by (simp add: tgw bucket_keys_def)
  from usedKey_first_min [OF this] obtain i where
    i: "i < length ?tgw" and
    key: "usedKey ?tgw = Some (fst (?tgw ! i))" and
    least: "\<forall>j<length ?tgw. length (snd (?tgw ! i)) \<le> length (snd (?tgw ! j))" and
    first: "\<forall>j<i. length (snd (?tgw ! i)) < length (snd (?tgw ! j))"
    by blast
  have nth: "?tgw ! j = (bucket_keys ! j, spec_bucket g (bucket_keys ! j) ?ws)"
    if "j < length bucket_keys" for j
    using that by (simp add: tgw)
  have ik: "i < length bucket_keys" using i len by simp
  have key': "usedKey ?tgw = Some (bucket_keys ! i)"
    using key ik by (simp add: nth)
  have look: "map_of ?tgw (bucket_keys ! i) = Some (spec_bucket g (bucket_keys ! i) ?ws)"
    using ik by (simp add: tgw map_of_map_restrict)
  have "guessWord G g =
      (case gradeWords G g (1, 1, 1) (spec_bucket g (bucket_keys ! i) ?ws) of
         [] \<Rightarrow> Inl TypeError | gw # _ \<Rightarrow> Inr (fst gw))"
  proof -
    have "length ?ws \<noteq> 0" "length ?ws \<noteq> 1" using assms by auto
    then show ?thesis
      unfolding guessWord_def Let_def by (simp add: key' look)
  qed
  moreover have "\<forall>j<length bucket_keys.
      length (spec_bucket g (bucket_keys ! i) ?ws) \<le> length (spec_bucket g (bucket_keys ! j) ?ws)"
    using least ik by (simp add: len nth)
  moreover have "\<forall>j<i. length (spec_bucket g (bucket_keys ! i) ?ws)
      < length (spec_bucket g (bucket_keys ! j) ?ws)"
    using first ik by (simp add: nth)
  ultimately show ?thesis using ik key' tgw by blast
qed

theorem guessWord_fewest_bucket_witness:
  "1 < length (remaining (submit (Game_constructor ''apple'' [''ample'', ''apple'', ''maple'', ''angle''])
                   (Word_of ''ample''))) \<and>
   map (\<lambda>e. length (snd e))
     (typeGradedWords (submit (Game_constructor ''apple'' [''ample'', ''apple'', ''maple'', ''angle''])
                         (Word_of ''ample''))
        (remaining (submit (Game_constructor ''apple'' [''ample'', ''apple'', ''maple'', ''angle''])
                      (Word_of ''ample'')))) = [2, 1, 3, 1, 2, 1, 1] \<and>
   usedKey
     (typeGradedWords (submit (Game_constructor ''apple'' [''ample'', ''apple'', ''maple'', ''angle''])
                         (Word_of ''ample''))
        (remaining (submit (Game_constructor ''apple'' [''ample'', ''apple'', ''maple'', ''angle''])
                      (Word_of ''ample'')))) = Some ''v'' \<and>
   guessWord (\<lambda>c. 0) (submit (Game_constructor ''apple'' [''ample'', ''apple'', ''maple'', ''angle''])
                        (Word_of ''ample'')) = Inr (Word_of ''apple'')"
proof -
  let ?init = "Game_constructor ''apple'' [''ample'', ''apple'', ''maple'', ''angle'']"
  let ?g = "submit ?init (Word_of ''ample'')"
  let ?rest = "[Word_of ''apple'', Word_of ''maple'', Word_of ''angle'']"
  have nt: "newTry ?init (Word_of ''ample'') =
      \<lparr>positions = [\<lparr>character = CHR ''a'', pvalue = GREEN\<rparr>, \<lparr>character = CHR ''m'', pvalue = GRAY\<rparr>,
        \<lparr>character = CHR ''p'', pvalue = GREEN\<rparr>, \<lparr>character = CHR ''l'', pvalue = GREEN\<rparr>,
        \<lparr>character = CHR ''e'', pvalue = GREEN\<rparr>]\<rparr>"
    by (simp add: newTry_def Game_constructor_def characters_Word_of first_pass_def classify_def
        downgrade_def js_index_def enumerate_eq_zip upt_rec)
  have wfs: "wordFilters ?g = [newTry ?init (Word_of ''ample'')]"
    by (simp add: wordFilters_submit Game_constructor_def)
  have aw: "allWords ?g = [Word_of ''ample'', Word_of ''apple'', Word_of ''maple'', Word_of ''angle'']"
    by (simp add: allWords_submit Game_constructor_def)
  have green: "greenChars ?g = [Some CHR ''a'', None, Some CHR ''p'', Some CHR ''l'', Some CHR ''e'']"
    by (simp add: greenChars_def wfs nt green_write_def js_assign_def enumerate_eq_zip upt_rec)
  have gray: "grayChars ?g = ''m''"
    by (simp add: grayChars_def wfs nt green array_from_set_def)
  have yellow: "yellowChars ?g = []"
    by (simp add: yellowChars_def wfs nt green array_from_set_def)
  have rem: "remaining ?g = ?rest"
    by (simp add: remaining_def usedWords_def wfs nt aw toString_def characters_Word_of)
  have many: "1 < length (remaining ?g)"
    by (simp add: rem)
  have ev1: "evaluateWord ?g (Word_of ''apple'') = \<lparr>gray = True, green = True, yellow = True\<rparr>"
    by (simp add: evaluateWord_def gray green yellow hasChar_def characters_Word_of js_index_def
        enumerate_eq_zip upt_rec)
  have ev2: "evaluateWord ?g (Word_of ''maple'') = \<lparr>gray = False, green = False, yellow = True\<rparr>"
    by (simp add: evaluateWord_def gray green yellow hasChar_def characters_Word_of js_index_def
        enumerate_eq_zip upt_rec)
  have ev3: "evaluateWord ?g (Word_of ''angle'') = \<lparr>gray = True, green = False, yellow = True\<rparr>"
    by (simp add: evaluateWord_def gray green yellow hasChar_def characters_Word_of js_index_def
        enumerate_eq_zip upt_rec)
  have tgw: "typeGradedWords ?g ?rest =
      [(''g'', [Word_of ''apple'', Word_of ''angle'']), (''v'', [Word_of ''apple'']), (''y'', ?rest),
       (''gv'', [Word_of ''apple'']), (''gy'', [Word_of ''apple'', Word_of ''angle'']),
       (''yv'', [Word_of ''apple'']), (''gvy'', [Word_of ''apple''])]"
    unfolding typeGradedWords_def Let_def by (simp add: ev1 ev2 ev3)
  have sizes: "map (\<lambda>e. length (snd e)) (typeGradedWords ?g (remaining ?g)) = [2, 1, 3, 1, 2, 1, 1]"
    unfolding rem tgw by simp
  have key: "usedKey (typeGradedWords ?g (remaining ?g)) = Some ''v''"
    unfolding rem tgw by (simp add: usedKey_def js_index_def)
  have bucket: "spec_bucket ?g ''v'' (remaining ?g) = [Word_of ''apple'']"
    unfolding rem by (simp add: spec_bucket_def ev1 ev2 ev3)
  have ranked: "map fst (gradeWords (\<lambda>c. 0) ?g (1, 1, 1) [Word_of ''apple'']) = [Word_of ''apple'']"
    by (simp add: gradeWords_def)
  from guessWord_fewest_bucket [OF many, of "\<lambda>c. 0"] obtain i where
    chosen: "usedKey (typeGradedWords ?g (remaining ?g)) = Some (bucket_keys ! i)" and
    result: "guessWord (\<lambda>c. 0) ?g =
      (case gradeWords (\<lambda>c. 0) ?g (1, 1, 1) (spec_bucket ?g (bucket_keys ! i) (remaining ?g)) of
         [] \<Rightarrow> Inl TypeError | gw # _ \<Rightarrow> Inr (fst gw))"
    by blast
  from chosen key have "bucket_keys ! i = ''v''" by simp
  with result bucket have "guessWord (\<lambda>c. 0) ?g =
      (case gradeWords (\<lambda>c. 0) ?g (1, 1, 1) [Word_of ''apple''] of
         [] \<Rightarrow> Inl TypeError | gw # _ \<Rightarrow> Inr (fst gw))"
    by simp
  with ranked have "guessWord (\<lambda>c. 0) ?g = Inr (Word_of ''apple'')"
    by (cases "gradeWords (\<lambda>c. 0) ?g (1, 1, 1) [Word_of ''apple'']") simp_all
  with many sizes key show ?thesis by blast
qed

text \<open>
  Claim C7 says that \<open>guessWord\<close> fails exactly when no word remains, and never
  otherwise. The first half holds (\<open>guessWord_no_words\<close>). The second does not: with the
  secret "zzzzz" and the dictionary "aaaaa", "abbbb", "acccc", the first guess (under the
  table that grades every character 0) is "abbbb"; after its feedback two words remain,
  both contain the gray \<open>a\<close>, so the bucket \<open>g\<close> is empty and is the smallest, \<open>gradeWords\<close>
  returns an empty array, and reading \<open>.word\<close> of its first element throws a TypeError,
  whatever the grading table.
\<close>

theorem guessWord_TypeError_on_empty_bucket:
  "guessWord (\<lambda>c. 0) (Game_constructor ''zzzzz'' [''aaaaa'', ''abbbb'', ''acccc'']) = Inr (Word_of ''abbbb'') \<and>
   remaining (submit (Game_constructor ''zzzzz'' [''aaaaa'', ''abbbb'', ''acccc'']) (Word_of ''abbbb''))
     = [Word_of ''aaaaa'', Word_of ''acccc''] \<and>
   guessWord G (submit (Game_constructor ''zzzzz'' [''aaaaa'', ''abbbb'', ''acccc'']) (Word_of ''abbbb''))
     = Inl TypeError"
proof -
  let ?init = "Game_constructor ''zzzzz'' [''aaaaa'', ''abbbb'', ''acccc'']"
  let ?g = "submit ?init (Word_of ''abbbb'')"
  let ?all = "[Word_of ''aaaaa'', Word_of ''abbbb'', Word_of ''acccc'']"
  let ?rest = "[Word_of ''aaaaa'', Word_of ''acccc'']"
  have wfs_init: "wordFilters ?init = []" and aw0: "allWords ?init = ?all"
    by (simp_all add: Game_constructor_def)
  have green0: "greenChars ?init = [None, None, None, None, None]"
    by (simp add: greenChars_def wfs_init)
  have gray0: "grayChars ?init = []"
    by (simp add: grayChars_def wfs_init array_from_set_def)
  have yellow0: "yellowChars ?init = []"
    by (simp add: yellowChars_def wfs_init array_from_set_def)
  have rem0: "remaining ?init = ?all"
    by (simp add: remaining_def usedWords_def wfs_init aw0)
  have ev0: "evaluateWord ?init w = \<lparr>gray = True, green = True, yellow = True\<rparr>" for w
    by (simp add: evaluateWord_def gray0 green0 yellow0 enumerate_eq_zip upt_rec)
  have tgw0: "typeGradedWords ?init ?all =
      [(''g'', ?all), (''v'', ?all), (''y'', ?all), (''gv'', ?all), (''gy'', ?all), (''yv'', ?all), (''gvy'', ?all)]"
    unfolding typeGradedWords_def Let_def by (simp add: ev0 comp_def)
  have key0: "usedKey (typeGradedWords ?init ?all) = Some ''g''"
    unfolding tgw0 by (simp add: usedKey_def js_index_def)
  have gw0: "map fst (gradeWords (\<lambda>c. 0) ?init (1, 1, 1) ?all) = [Word_of ''abbbb'', Word_of ''acccc'', Word_of ''aaaaa'']"
    by (simp add: gradeWords_def green0 yellow0 array_from_set_def characters_Word_of)
  have first: "guessWord (\<lambda>c. 0) ?init = Inr (Word_of ''abbbb'')"
  proof (cases "gradeWords (\<lambda>c. 0) ?init (1, 1, 1) ?all")
    case Nil
    with gw0 show ?thesis by simp
  next
    case (Cons a list)
    with gw0 have "fst a = Word_of ''abbbb''" by simp
    then show ?thesis
      unfolding guessWord_def Let_def rem0 key0 by (simp add: tgw0 Cons)
  qed
  have nt: "newTry ?init (Word_of ''abbbb'') =
      \<lparr>positions = [\<lparr>character = CHR ''a'', pvalue = GRAY\<rparr>, \<lparr>character = CHR ''b'', pvalue = GRAY\<rparr>,
        \<lparr>character = CHR ''b'', pvalue = GRAY\<rparr>, \<lparr>character = CHR ''b'', pvalue = GRAY\<rparr>,
        \<lparr>character = CHR ''b'', pvalue = GRAY\<rparr>]\<rparr>"
    by (simp add: newTry_def Game_constructor_def characters_Word_of first_pass_def classify_def
        downgrade_def js_index_def enumerate_eq_zip upt_rec)
  have wfs: "wordFilters ?g = [newTry ?init (Word_of ''abbbb'')]"
    by (simp add: wordFilters_submit wfs_init)
  have aw: "allWords ?g = ?all"
    by (simp add: allWords_submit aw0)
  have green: "greenChars ?g = [None, None, None, None, None]"
    by (simp add: greenChars_def wfs nt green_write_def enumerate_eq_zip upt_rec)
  have gray: "grayChars ?g = ''ab''"
    by (simp add: grayChars_def wfs nt green array_from_set_def)
  have yellow: "yellowChars ?g = []"
    by (simp add: yellowChars_def wfs nt green array_from_set_def)
  have rem: "remaining ?g = ?rest"
    by (simp add: remaining_def usedWords_def wfs nt aw toString_def characters_Word_of)
  have ev1: "evaluateWord ?g (Word_of ''aaaaa'') = \<lparr>gray = False, green = True, yellow = True\<rparr>"
    by (simp add: evaluateWord_def gray green yellow hasChar_def characters_Word_of enumerate_eq_zip upt_rec)
  have ev2: "evaluateWord ?g (Word_of ''acccc'') = \<lparr>gray = False, green = True, yellow = True\<rparr>"
    by (simp add: evaluateWord_def gray green yellow hasChar_def characters_Word_of enumerate_eq_zip upt_rec)
  have tgw: "typeGradedWords ?g ?rest =
      [(''g'', []), (''v'', ?rest), (''y'', ?rest), (''gv'', []), (''gy'', []), (''yv'', ?rest), (''gvy'', [])]"
    unfolding typeGradedWords_def Let_def by (simp add: ev1 ev2)
  have key: "usedKey (typeGradedWords ?g ?rest) = Some ''g''"
    unfolding tgw by (simp add: usedKey_def js_index_def)
  have empty: "gradeWords G ?g (1, 1, 1) [] = []"
    by (simp add: gradeWords_def)
  have stuck: "guessWord G ?g = Inl TypeError"
    unfolding guessWord_def Let_def rem key by (simp add: tgw empty)
  show ?thesis
    by (simp only: first rem stuck simp_thms)
qed

section \<open>train\<close>

lemma loop_le: "bestAvg (loop d b) \<le> bestAvg b"
  by (cases d) (simp add: loop_def Let_def)

lemma loop_le_avg: "bestAvg (loop d b) \<le> generation_avg (snd d)"
  by (cases d) (simp add: loop_def Let_def)

lemma fold_loop_le: "bestAvg (fold loop ds b) \<le> bestAvg b"
proof (induction ds arbitrary: b)
  case Nil
  show ?case by simp
next
  case (Cons d ds)
  have "bestAvg (fold loop ds (loop d b)) \<le> bestAvg (loop d b)"
    by (rule Cons.IH)
  also have "\<dots> \<le> bestAvg b" by (rule loop_le)
  finally show ?case by simp
qed

text \<open>
  Claim C9. Along any sequence of generations the best average never increases from one
  generation to the next, and after at least one generation it is at most the average
  of the first sampled parameter vector.
\<close>

theorem train_bestAvg_monotone:
  "(\<forall>n. bestAvg (train (take (Suc n) draws)) \<le> bestAvg (train (take n draws))) \<and>
   (draws \<noteq> [] \<longrightarrow> bestAvg (train draws) \<le> generation_avg (snd (hd draws)))"
proof (intro conjI allI impI)
  fix n
  show "bestAvg (train (take (Suc n) draws)) \<le> bestAvg (train (take n draws))"
  proof (cases "n < length draws")
    case True
    then have "take (Suc n) draws = take n draws @ [draws ! n]"
      by (simp add: take_Suc_conv_app_nth)
    then show ?thesis
      by (simp add: train_def loop_le)
  next
    case False
    then show ?thesis by simp
  qed
next
  assume "draws \<noteq> []"
  then obtain d ds where draws: "draws = d # ds"
    by (cases draws) auto
  let ?b0 = "\<lparr> bestAvg = 100, bestAvgParams = [] \<rparr>"
  have "bestAvg (train draws) = bestAvg (fold loop ds (loop d ?b0))"
    by (simp add: train_def draws)
  also have "\<dots> \<le> bestAvg (loop d ?b0)" by (rule fold_loop_le)
  also have "\<dots> \<le> generation_avg (snd d)" by (rule loop_le_avg)
  finally show "bestAvg (train draws) \<le> generation_avg (snd (hd draws))"
    by (simp add: draws)
qed

theorem train_bestAvg_monotone_witness:
  "[([1, 2, 3, 4], [3, 4, 5]), ([1, 1, 1, 1], [2, 2]), ([0, 0, 0, 0], [6])] \<noteq> ([] :: (real list \<times> nat list) list) \<and>
   generation_avg [3, 4, 5] = 4 \<and>
   bestAvg (train [([1, 2, 3, 4], [3, 4, 5]), ([1, 1, 1, 1], [2, 2]), ([0, 0, 0, 0], [6])]) \<le> 4"
proof -
  let ?draws = "[([1, 2, 3, 4], [3, 4, 5]), ([1, 1, 1, 1], [2, 2]), ([0, 0, 0, 0], [6])] :: (real list \<times> nat list) list"
  have ne: "?draws \<noteq> []" by simp
  have avg: "generation_avg [3, 4, 5] = 4"
    by (simp add: generation_avg_def)
  have "bestAvg (train ?draws) \<le> generation_avg (snd (hd ?draws))"
    using train_bestAvg_monotone [of ?draws] ne by blast
  then show ?thesis using avg by simp
qed

end
